theory Spec2Isabelle
  imports
    Complex_Main
    "HOL-Library.Char_ord"
    "HOL-Library.List_Lexorder"
    "HOL-Library.Product_Lexorder"
    "HOL-Library.Sublist"
    "HOL-Library.Multiset"
begin

section \<open>Data model\<close>

text \<open>
  The liquidation monitor of \<^verbatim>\<open>src/main.py\<close>. Python floats are modelled as
  real numbers (no rounding, no infinities, no NaN); an aware UTC \<^verbatim>\<open>datetime\<close> is the
  number of microseconds since the epoch, so that a \<^verbatim>\<open>timedelta\<close> is a difference of
  two such numbers and \<^verbatim>\<open>total_seconds()\<close> divides it by one million. Texts are
  byte strings restricted to ASCII.
\<close>

type_synonym datetime = int

definition total_seconds :: "int \<Rightarrow> real" where
  "total_seconds delta = real_of_int delta / 1000000"

definition timedelta_seconds :: "int \<Rightarrow> int" where
  "timedelta_seconds s = s * 1000000"

text \<open>The module-level configuration, read once from the environment.\<close>

record config =
  DISCORD_WEBHOOK_URL :: "string option"
  BASE_THRESHOLD_USD_PER_SEC :: real
  ANALYSIS_WINDOW_SECONDS :: int
  ACCELERATION_THRESHOLD :: real
  BIAS_THRESHOLD :: real
  SUMMARY_COOLDOWN_SECONDS :: int
  ACTIVE_IDLE_TRANSITION_GRACE_PERIOD_SECONDS :: int

text \<open>The defaults of the \<^verbatim>\<open>os.getenv\<close> calls; the webhook URL has none.\<close>

definition default_config :: config where
  "default_config =
     \<lparr> DISCORD_WEBHOOK_URL = None,
       BASE_THRESHOLD_USD_PER_SEC = 20000,
       ANALYSIS_WINDOW_SECONDS = 300,
       ACCELERATION_THRESHOLD = 3,
       BIAS_THRESHOLD = 85 / 100,
       SUMMARY_COOLDOWN_SECONDS = 60,
       ACTIVE_IDLE_TRANSITION_GRACE_PERIOD_SECONDS = 30 \<rparr>"

definition LIQUIDATION_HISTORY_LIMIT :: nat where
  "LIQUIDATION_HISTORY_LIMIT = 200"

text \<open>
  An event is the dictionary with the keys \<^verbatim>\<open>timestamp\<close>, \<^verbatim>\<open>ticker\<close>,
  \<^verbatim>\<open>direction\<close> and \<^verbatim>\<open>amount\<close> that the query and the ingestion path build.
\<close>

record event =
  timestamp :: datetime
  ticker :: string
  direction :: string
  amount :: real

section \<open>Metrics calculator\<close>

record metrics =
  speed_usd_per_sec :: real
  total_amount :: real
  total_count :: nat
  avg_event_amount :: real
  dominance_info :: "(string \<times> real) list"
  long_bias :: real
  short_bias :: real

text \<open>
  \<^verbatim>\<open>ticker_amounts[event['ticker']] += event['amount']\<close> on a
  \<^verbatim>\<open>defaultdict(float)\<close>: a dictionary in insertion order, a missing key starting
  from \<open>0.0\<close>.
\<close>

fun ticker_amounts_add :: "(string \<times> real) list \<Rightarrow> string \<Rightarrow> real \<Rightarrow> (string \<times> real) list" where
  "ticker_amounts_add [] t a = [(t, 0 + a)]"
| "ticker_amounts_add ((k, v) # kvs) t a =
     (if k = t then (k, v + a) # kvs else (k, v) # ticker_amounts_add kvs t a)"

fun ticker_amounts_loop :: "event list \<Rightarrow> (string \<times> real) list \<Rightarrow> (string \<times> real) list" where
  "ticker_amounts_loop [] acc = acc"
| "ticker_amounts_loop (e # es) acc =
     ticker_amounts_loop es (ticker_amounts_add acc (ticker e) (amount e))"

definition calculate_liquidation_metrics :: "event list \<Rightarrow> real \<Rightarrow> metrics" where
  "calculate_liquidation_metrics events window_seconds =
     (let total = sum_list (map amount events);
          count = length events;
          speed = (if window_seconds > 0 then total / window_seconds else 0);
          ticker_amounts = ticker_amounts_loop events [];
          dominance =
            (if total > 0 then map (\<lambda>(t, a). (t, a / total)) ticker_amounts else []);
          long_amount = sum_list (map amount (filter (\<lambda>e. direction e = ''Long'') events));
          total_directional_amount =
            sum_list (map amount
              (filter (\<lambda>e. direction e \<in> set [''Long'', ''Short'']) events));
          long = (if total_directional_amount > 0
                  then long_amount / total_directional_amount else 0)
      in \<lparr> speed_usd_per_sec = speed,
           total_amount = total,
           total_count = count,
           avg_event_amount = (if count > 0 then total / real count else 0),
           dominance_info = dominance,
           long_bias = long,
           short_bias = (if total_directional_amount > 0 then 1 - long else 0) \<rparr>)"

section \<open>Acceleration heuristic\<close>

definition calculate_acceleration :: "config \<Rightarrow> real \<Rightarrow> real \<Rightarrow> real" where
  "calculate_acceleration cfg current_speed prev_speed =
     (if prev_speed > 500 then current_speed / prev_speed
      else if current_speed > 0 then ACCELERATION_THRESHOLD cfg
      else 1)"

section \<open>Event store\<close>

text \<open>
  The table \<^verbatim>\<open>liquidations\<close>. The column \<^verbatim>\<open>timestamp\<close> holds the text that
  \<^verbatim>\<open>sqlite3\<close> writes for a \<^verbatim>\<open>datetime\<close> parameter, and SQLite compares such
  texts byte by byte, which is the lexicographic order on strings. The conversion of a
  \<^verbatim>\<open>datetime\<close> to that text (the \<^verbatim>\<open>sqlite3\<close> adapter) and
  \<^verbatim>\<open>datetime.fromisoformat\<close> belong to the Python library, not to this program:
  they are the parameters \<open>adapt\<close> and \<open>fromisoformat\<close> below.
\<close>

record row =
  row_id :: nat
  row_timestamp :: string
  row_ticker :: string
  row_direction :: string
  row_amount :: real

text \<open>
  The connection: the rows of the table in rowid order, and the counter that
  \<^verbatim>\<open>AUTOINCREMENT\<close> keeps (the largest id ever handed out).
\<close>

record connection =
  liquidations :: "row list"
  sqlite_sequence :: nat

definition empty_db :: connection where
  "empty_db = \<lparr> liquidations = [], sqlite_sequence = 0 \<rparr>"

text \<open>\<^verbatim>\<open>INSERT INTO liquidations (timestamp, ticker, direction, amount) VALUES (?, ?, ?, ?)\<close>\<close>

definition insert_liquidation :: "connection \<Rightarrow> string \<Rightarrow> string \<Rightarrow> string \<Rightarrow> real \<Rightarrow> connection" where
  "insert_liquidation conn ts t d a =
     (let new_id = Suc (fold max (map row_id (liquidations conn)) (sqlite_sequence conn))
      in conn\<lparr> liquidations := liquidations conn @
                  [\<lparr> row_id = new_id, row_timestamp = ts, row_ticker = t,
                     row_direction = d, row_amount = a \<rparr>],
               sqlite_sequence := new_id \<rparr>)"

text \<open>\<^verbatim>\<open>SELECT id FROM liquidations ORDER BY timestamp DESC, id DESC LIMIT n\<close>\<close>

definition most_recent_ids :: "row list \<Rightarrow> nat \<Rightarrow> nat list" where
  "most_recent_ids rows n =
     map row_id (take n (rev (sort_key (\<lambda>r. (row_timestamp r, row_id r)) rows)))"

text \<open>\<^verbatim>\<open>DELETE FROM liquidations WHERE id NOT IN (...)\<close>\<close>

definition trim_liquidations :: "connection \<Rightarrow> connection" where
  "trim_liquidations conn =
     conn\<lparr> liquidations :=
       filter (\<lambda>r. row_id r \<in> set (most_recent_ids (liquidations conn) LIQUIDATION_HISTORY_LIMIT))
         (liquidations conn) \<rparr>"

definition add_liquidation ::
  "(datetime \<Rightarrow> string) \<Rightarrow> connection \<Rightarrow> datetime \<Rightarrow> string \<Rightarrow> string \<Rightarrow> real \<Rightarrow> connection" where
  "add_liquidation adapt conn ts t d a =
     trim_liquidations (insert_liquidation conn (adapt ts) t d a)"

text \<open>A sequence of appends, each with its timestamp, ticker, direction and amount.\<close>

fun add_liquidations ::
  "(datetime \<Rightarrow> string) \<Rightarrow> connection \<Rightarrow> (datetime \<times> string \<times> string \<times> real) list \<Rightarrow> connection" where
  "add_liquidations adapt conn [] = conn"
| "add_liquidations adapt conn ((ts, t, d, a) # rest) =
     add_liquidations adapt (add_liquidation adapt conn ts t d a) rest"

text \<open>\<^verbatim>\<open>old.replace(c, new)\<close> for a one-character \<open>old\<close>.\<close>

primrec str_replace :: "char \<Rightarrow> string \<Rightarrow> string \<Rightarrow> string" where
  "str_replace old new [] = []"
| "str_replace old new (c # cs) =
     (if c = old then new @ str_replace old new cs else c # str_replace old new cs)"

text \<open>
  The value handed to \<^verbatim>\<open>_to_datetime\<close>: a \<^verbatim>\<open>str\<close>, or something that is
  returned as it is. \<open>None\<close> is the \<^verbatim>\<open>ValueError\<close> of \<^verbatim>\<open>fromisoformat\<close>.
\<close>

datatype ts_val = TsStr string | TsDatetime datetime

fun to_datetime :: "(string \<Rightarrow> datetime option) \<Rightarrow> ts_val \<Rightarrow> datetime option" where
  "to_datetime fromisoformat (TsStr s) = fromisoformat (str_replace CHR '' '' ''T'' s)"
| "to_datetime fromisoformat (TsDatetime d) = Some d"

text \<open>
  \<^verbatim>\<open>SELECT ... FROM liquidations WHERE timestamp BETWEEN ? AND ? ORDER BY timestamp ASC\<close>
\<close>

definition select_timeframe :: "row list \<Rightarrow> string \<Rightarrow> string \<Rightarrow> row list" where
  "select_timeframe rows lo hi =
     sort_key row_timestamp (filter (\<lambda>r. lo \<le> row_timestamp r \<and> row_timestamp r \<le> hi) rows)"

text \<open>The loop over the fetched rows; a row whose timestamp does not parse is skipped.\<close>

fun results_loop :: "(string \<Rightarrow> datetime option) \<Rightarrow> row list \<Rightarrow> event list \<Rightarrow> event list" where
  "results_loop fromisoformat [] results = results"
| "results_loop fromisoformat (r # rows) results =
     (case to_datetime fromisoformat (TsStr (row_timestamp r)) of
        Some ts \<Rightarrow>
          results_loop fromisoformat rows
            (results @ [\<lparr> timestamp = ts, ticker = row_ticker r,
                           direction = row_direction r, amount = row_amount r \<rparr>])
      | None \<Rightarrow> results_loop fromisoformat rows results)"

text \<open>\<open>clock\<close> is the reading of \<^verbatim>\<open>datetime.now(timezone.utc)\<close> taken when no end is given.\<close>

definition get_liquidations_in_timeframe ::
  "(datetime \<Rightarrow> string) \<Rightarrow> (string \<Rightarrow> datetime option) \<Rightarrow> datetime \<Rightarrow>
     connection \<Rightarrow> datetime \<Rightarrow> datetime option \<Rightarrow> event list" where
  "get_liquidations_in_timeframe adapt fromisoformat clock conn start_time end_time =
     (let end_time' = (case end_time of None \<Rightarrow> clock | Some e \<Rightarrow> e);
          rows = select_timeframe (liquidations conn) (adapt start_time) (adapt end_time')
      in results_loop fromisoformat rows [])"

section \<open>Parser\<close>

subsection \<open>Strings\<close>

definition is_digit :: "char \<Rightarrow> bool" where
  "is_digit c = (CHR ''0'' \<le> c \<and> c \<le> CHR ''9'')"










subsection \<open>Regular expressions\<close>










subsection \<open>Amounts and messages\<close>



text \<open>
  A reading of plain decimal literals (digits with at most one point, at least one
  digit), the only texts on which \<^verbatim>\<open>float\<close> succeeds among those the third group
  of the pattern leaves after stripping. It instantiates \<open>pyfloat\<close> in examples.
\<close>

fun digits_value :: "string \<Rightarrow> int \<Rightarrow> int" where
  "digits_value [] acc = acc"
| "digits_value (c # cs) acc = digits_value cs (10 * acc + (of_char c - 48))"


section \<open>Detection state machine\<close>

datatype monitor_state = IDLE | ACTIVE

record monitor =
  state :: monitor_state
  active_since :: "datetime option"
  last_summary_sent :: "datetime option"
  last_known_speed :: real
  prev_known_speed :: real
  last_above_threshold_time :: "datetime option"
  active_period_events :: "event list"

definition init_monitor :: monitor where
  "init_monitor =
     \<lparr> state = IDLE, active_since = None, last_summary_sent = None, last_known_speed = 0,
       prev_known_speed = 0, last_above_threshold_time = None, active_period_events = [] \<rparr>"

text \<open>
  What a summary notification is built from. The rendering of the numbers into the
  lines of the embed is not modelled: the payload keeps the values that are rendered.
\<close>

record summary =
  critical :: bool
  summary_metrics :: metrics
  summary_acceleration :: real
  summary_prev_speed :: real
  sorted_dominance :: "(string \<times> real) list"
  bias_line :: "string option"

text \<open>
  The outcome of the HTTP post, as the \<^verbatim>\<open>try\<close> statement tells them apart: the
  post went through (with the clock reading taken right after it), or it raised
  \<^verbatim>\<open>aiohttp.ClientError\<close>.
\<close>

datatype post_outcome = Delivered datetime | ClientError

text \<open>
  \<^verbatim>\<open>_send_summary_notification\<close>: the monitor after the call and the payloads
  that were posted.
\<close>

definition send_summary_notification ::
  "config \<Rightarrow> post_outcome \<Rightarrow> monitor \<Rightarrow> metrics \<Rightarrow> real \<Rightarrow> real \<Rightarrow> monitor \<times> summary list" where
  "send_summary_notification cfg post self ms acceleration prev_speed =
     (if DISCORD_WEBHOOK_URL cfg = None \<or> DISCORD_WEBHOOK_URL cfg = Some [] then (self, [])
      else
        let payload =
              \<lparr> critical = (acceleration \<ge> ACCELERATION_THRESHOLD cfg
                             \<and> speed_usd_per_sec ms \<ge> BASE_THRESHOLD_USD_PER_SEC cfg),
                summary_metrics = ms,
                summary_acceleration = acceleration,
                summary_prev_speed = prev_speed,
                sorted_dominance = take 3 (rev (sort_key snd (rev (dominance_info ms)))),
                bias_line =
                  (if long_bias ms \<ge> BIAS_THRESHOLD cfg then Some ''Long Flush''
                   else if short_bias ms \<ge> BIAS_THRESHOLD cfg then Some ''Short Squeeze''
                   else None) \<rparr>
        in case post of
             Delivered sent_at \<Rightarrow> (self\<lparr> last_summary_sent := Some sent_at \<rparr>, [payload])
           | ClientError \<Rightarrow> (self, [payload]))"

text \<open>
  A step that subtracts \<^verbatim>\<open>None\<close> from a \<^verbatim>\<open>datetime\<close> raises
  \<^verbatim>\<open>TypeError\<close>.
\<close>

datatype error = TypeError

text \<open>
  \<^verbatim>\<open>check_and_transition\<close>: one evaluation step. \<open>now\<close> is the clock reading the
  step starts with, \<open>post\<close> the outcome of the HTTP post should the step send a
  summary. The result is the monitor after the step and the payloads posted.
\<close>

definition check_and_transition ::
  "config \<Rightarrow> (datetime \<Rightarrow> string) \<Rightarrow> (string \<Rightarrow> datetime option) \<Rightarrow> connection \<Rightarrow>
     datetime \<Rightarrow> post_outcome \<Rightarrow> monitor \<Rightarrow> error + monitor \<times> summary list" where
  "check_and_transition cfg adapt fromisoformat conn now post self =
     (let (events, window_duration) =
            (if state self = ACTIVE then
               (active_period_events self,
                case active_since self of
                  Some since \<Rightarrow> total_seconds (now - since)
                | None \<Rightarrow> real_of_int (ANALYSIS_WINDOW_SECONDS cfg))
             else
               (get_liquidations_in_timeframe adapt fromisoformat now conn
                  (now - timedelta_seconds (ANALYSIS_WINDOW_SECONDS cfg)) (Some now),
                real_of_int (ANALYSIS_WINDOW_SECONDS cfg)));
          current_metrics = calculate_liquidation_metrics events window_duration;
          current_speed = speed_usd_per_sec current_metrics
      in case state self of
           IDLE \<Rightarrow>
             if current_speed \<ge> BASE_THRESHOLD_USD_PER_SEC cfg then
               (if (case last_summary_sent self of
                      Some sent \<Rightarrow>
                        total_seconds (now - sent) < real_of_int (SUMMARY_COOLDOWN_SECONDS cfg)
                    | None \<Rightarrow> False)
                then Inr (self, [])
                else Inr (self\<lparr> state := ACTIVE, active_since := Some now,
                                active_period_events := events,
                                prev_known_speed := last_known_speed self,
                                last_above_threshold_time := Some now,
                                last_known_speed := current_speed \<rparr>, []))
             else Inr (self\<lparr> last_known_speed := current_speed \<rparr>, [])
         | ACTIVE \<Rightarrow>
             if current_speed < BASE_THRESHOLD_USD_PER_SEC cfg then
               (case last_above_threshold_time self of
                  None \<Rightarrow> Inl TypeError
                | Some last_above \<Rightarrow>
                    if total_seconds (now - last_above)
                         \<ge> real_of_int (ACTIVE_IDLE_TRANSITION_GRACE_PERIOD_SECONDS cfg)
                    then
                      (case active_since self of
                         None \<Rightarrow> Inl TypeError
                       | Some since \<Rightarrow>
                           let ms = calculate_liquidation_metrics (active_period_events self)
                                      (total_seconds (now - since));
                               acceleration = calculate_acceleration cfg (speed_usd_per_sec ms)
                                                (prev_known_speed self);
                               (self', posted) = send_summary_notification cfg post self ms
                                                   acceleration (prev_known_speed self);
                               self'' = self'\<lparr> state := IDLE, active_since := None,
                                               active_period_events := [],
                                               last_known_speed := 0,
                                               prev_known_speed := 0 \<rparr>
                           in Inr (self''\<lparr> last_known_speed := current_speed \<rparr>, posted))
                    else Inr (self\<lparr> last_known_speed := current_speed \<rparr>, []))
             else Inr (self\<lparr> last_above_threshold_time := Some now,
                             last_known_speed := current_speed \<rparr>, []))"

section \<open>Example inputs\<close>

text \<open>
  A stand-in for the two library functions, used where a theorem is instantiated on
  concrete data: a timestamp is written as its number of microseconds in twenty decimal
  digits (like the ISO text of a UTC \<^verbatim>\<open>datetime\<close>, a fixed-width text whose
  lexicographic order is the order of the instants), and read back from such a text.
\<close>

fun pad_digits :: "nat \<Rightarrow> int \<Rightarrow> string" where
  "pad_digits 0 n = []"
| "pad_digits (Suc k) n = pad_digits k (n div 10) @ [char_of (48 + n mod 10)]"

definition stamp_text :: "datetime \<Rightarrow> string" where
  "stamp_text t = pad_digits 20 t"

definition stamp_parse :: "string \<Rightarrow> datetime option" where
  "stamp_parse s =
     (if length s = 20 \<and> list_all is_digit s then Some (digits_value s 0) else None)"

text \<open>
  A store with two liquidations, 100 and 200 seconds after the epoch, worth seven
  million dollars together.
\<close>

definition burst_db :: connection where
  "burst_db =
     add_liquidation stamp_text
       (add_liquidation stamp_text empty_db 100000000 ''BTC'' ''Long'' 3000000)
       200000000 ''ETH'' ''Short'' 4000000"

definition burst_events :: "event list" where
  "burst_events =
     [\<lparr> timestamp = 100000000, ticker = ''BTC'', direction = ''Long'', amount = 3000000 \<rparr>,
      \<lparr> timestamp = 200000000, ticker = ''ETH'', direction = ''Short'', amount = 4000000 \<rparr>]"

text \<open>
  The monitor 380 seconds after it went ACTIVE on that burst at second 350; its speed
  was last at the threshold at second 700.
\<close>

definition draining_monitor :: monitor where
  "draining_monitor =
     \<lparr> state = ACTIVE, active_since = Some 350000000, last_summary_sent = None,
       last_known_speed = 7000000 / 370, prev_known_speed = 0,
       last_above_threshold_time = Some 700000000, active_period_events = burst_events \<rparr>"

text \<open>A store that holds as many rows as the limit allows, one per microsecond.\<close>

definition full_db :: connection where
  "full_db =
     \<lparr> liquidations =
         map (\<lambda>i. \<lparr> row_id = i, row_timestamp = stamp_text (int i), row_ticker = ''BTC'',
                    row_direction = ''Long'', row_amount = 1 \<rparr>)
           [1 ..< Suc LIQUIDATION_HISTORY_LIMIT],
       sqlite_sequence = LIQUIDATION_HISTORY_LIMIT \<rparr>"

text \<open>
  The example store with a third row whose timestamp text was damaged (its last character
  is no digit); the text still lies between those of seconds 149 and 151.
\<close>

definition tampered_db :: connection where
  "tampered_db =
     burst_db\<lparr> liquidations := liquidations burst_db @
       [\<lparr> row_id = 3, row_timestamp = ''0000000000015000000x'', row_ticker = ''SOL'',
          row_direction = ''Long'', row_amount = 5000000 \<rparr>],
       sqlite_sequence := 3 \<rparr>"

definition webhook_config :: config where
  "webhook_config = default_config\<lparr> DISCORD_WEBHOOK_URL := Some ''https://discord.example/hook'' \<rparr>"

section \<open>Properties of the acceleration heuristic\<close>

text \<open>
  Claim C4. \<^verbatim>\<open>calculate_acceleration\<close> returns the uncapped ratio
  \<open>current_speed / prev_speed\<close> when \<open>prev_speed > 500\<close>, the configured
  \<^verbatim>\<open>ACCELERATION_THRESHOLD\<close> when \<open>prev_speed \<le> 500\<close> and
  \<open>current_speed > 0\<close>, and \<open>1\<close> otherwise; in particular it maps \<open>(1200, 600)\<close>
  to \<open>2\<close>, \<open>(100, 100)\<close> to the configured cap and \<open>(0, 0)\<close> to \<open>1\<close>.
\<close>

theorem calculate_acceleration_cases:
  "(500 < prev_speed \<longrightarrow>
      calculate_acceleration cfg current_speed prev_speed = current_speed / prev_speed) \<and>
   (prev_speed \<le> 500 \<and> 0 < current_speed \<longrightarrow>
      calculate_acceleration cfg current_speed prev_speed = ACCELERATION_THRESHOLD cfg) \<and>
   (prev_speed \<le> 500 \<and> current_speed \<le> 0 \<longrightarrow>
      calculate_acceleration cfg current_speed prev_speed = 1) \<and>
   calculate_acceleration cfg 1200 600 = 2 \<and>
   calculate_acceleration cfg 100 100 = ACCELERATION_THRESHOLD cfg \<and>
   calculate_acceleration cfg 0 0 = 1"
  by (simp add: calculate_acceleration_def)

theorem calculate_acceleration_cases_witness:
  "calculate_acceleration default_config 1200 600 = 2 \<and>
   calculate_acceleration default_config 100 100 = 3 \<and>
   calculate_acceleration default_config 0 0 = 1 \<and>
   calculate_acceleration default_config 50000 20000 = 5 / 2"
proof -
  have ratio: "calculate_acceleration default_config 50000 20000 = 50000 / 20000"
    using calculate_acceleration_cases[of 20000 default_config 50000] by simp
  have cap: "calculate_acceleration default_config 100 100 = ACCELERATION_THRESHOLD default_config"
    using calculate_acceleration_cases[of 100 default_config 100] by simp
  have rest: "calculate_acceleration default_config 0 0 = 1"
    using calculate_acceleration_cases[of 0 default_config 0] by simp
  have two: "calculate_acceleration default_config 1200 600 = 1200 / 600"
    using calculate_acceleration_cases[of 600 default_config 1200] by simp
  from ratio cap rest two show ?thesis
    by (simp add: default_config_def)
qed

section \<open>Properties of the metrics calculator\<close>

lemma add_keys: "map fst (ticker_amounts_add kvs t a) = (if t \<in> set (map fst kvs) then map fst kvs else map fst kvs @ [t])"
  by (induction kvs t a rule: ticker_amounts_add.induct) auto

lemma add_distinct: "distinct (map fst kvs) \<Longrightarrow> distinct (map fst (ticker_amounts_add kvs t a))"
  by (simp add: add_keys)

lemma add_sum: "sum_list (map snd (ticker_amounts_add kvs t a)) = sum_list (map snd kvs) + a"
  by (induction kvs t a rule: ticker_amounts_add.induct) auto

lemma add_lookup: "distinct (map fst kvs) \<Longrightarrow> map_of (ticker_amounts_add kvs t a) k =
   (if k = t then Some ((case map_of kvs t of None \<Rightarrow> 0 | Some v \<Rightarrow> v) + a) else map_of kvs k)"
  by (induction kvs t a rule: ticker_amounts_add.induct) (auto)

lemma loop_keys: "set (map fst (ticker_amounts_loop es acc)) = set (map fst acc) \<union> ticker ` set es"
  by (induction es acc rule: ticker_amounts_loop.induct) (auto simp: add_keys)

lemma loop_distinct: "distinct (map fst acc) \<Longrightarrow> distinct (map fst (ticker_amounts_loop es acc))"
  by (induction es acc rule: ticker_amounts_loop.induct) (auto simp: add_distinct simp del: distinct_map)

lemma loop_sum: "sum_list (map snd (ticker_amounts_loop es acc)) = sum_list (map snd acc) + sum_list (map amount es)"
  by (induction es acc rule: ticker_amounts_loop.induct) (auto simp: add_sum)

lemma loop_lookup: "distinct (map fst acc) \<Longrightarrow> map_of (ticker_amounts_loop es acc) k =
   (if k \<in> set (map fst acc) \<union> ticker ` set es
    then Some ((case map_of acc k of None \<Rightarrow> 0 | Some v \<Rightarrow> v) + sum_list (map amount (filter (\<lambda>e. ticker e = k) es)))
    else None)"
proof (induction es acc rule: ticker_amounts_loop.induct)
  case (1 acc)
  then show ?case by (auto simp: map_of_eq_None_iff[symmetric] simp del: map_of_eq_None_iff split: option.splits)
next
  case (2 e es acc)
  then show ?case 
    by (auto simp: add_distinct add_lookup add_keys map_of_eq_None_iff[symmetric] simp del: map_of_eq_None_iff distinct_map split: option.splits)
qed

lemma metrics_total: "total_amount (calculate_liquidation_metrics events w) = sum_list (map amount events)"
  by (simp add: calculate_liquidation_metrics_def Let_def)

lemma metrics_dominance:
  "dominance_info (calculate_liquidation_metrics events w) =
     (if 0 < sum_list (map amount events)
      then map (\<lambda>(t, a). (t, a / sum_list (map amount events))) (ticker_amounts_loop events [])
      else [])"
  by (simp add: calculate_liquidation_metrics_def Let_def)

lemma map_of_scale: "map_of (map (\<lambda>(t, a). (t, a / (d::real))) kvs) k = map_option (\<lambda>a. a / d) (map_of kvs k)"
  by (induction kvs) auto

lemma sum_scale: "sum_list (map snd (map (\<lambda>(t, a). (t, a / (d::real))) kvs)) = sum_list (map snd kvs) / d"
  by (induction kvs) (auto simp: add_divide_distrib)

lemma fst_scale: "map fst (map (\<lambda>(t, a). (t, a / (d::real))) kvs) = map fst kvs"
  by (induction kvs) auto

text \<open>
  Claim C5. For every event sequence and window duration: when the total amount is
  positive, the dominance mapping has exactly the distinct tickers of the sequence as
  its keys, each mapped to the ticker's share of the total amount, and the shares sum
  to \<open>1\<close> (exactly, amounts being real numbers here); when the total amount is \<open>0\<close>
  the mapping is empty.
\<close>

theorem dominance_shares:
  fixes events :: "event list" and w :: real
  shows "let m = calculate_liquidation_metrics events w in
     total_amount m = sum_list (map amount events) \<and>
     (0 < total_amount m \<longrightarrow>
        distinct (map fst (dominance_info m)) \<and>
        set (map fst (dominance_info m)) = ticker ` set events \<and>
        (\<forall>t \<in> ticker ` set events.
           map_of (dominance_info m) t =
             Some (sum_list (map amount (filter (\<lambda>e. ticker e = t) events)) / total_amount m)) \<and>
        sum_list (map snd (dominance_info m)) = 1) \<and>
     (total_amount m = 0 \<longrightarrow> dominance_info m = [])"
proof -
  define tot where "tot = sum_list (map amount events)"
  define tl where "tl = ticker_amounts_loop events []"
  define dom where "dom = map (\<lambda>(t, a). (t, a / tot)) tl"
  have keys: "set (map fst tl) = ticker ` set events"
    unfolding tl_def using loop_keys[of events "[]"] by simp
  have dist: "distinct (map fst tl)"
    unfolding tl_def using loop_distinct[of "[]" events] by simp
  have look: "map_of tl t = Some (sum_list (map amount (filter (\<lambda>e. ticker e = t) events)))"
    if "t \<in> ticker ` set events" for t
    unfolding tl_def using loop_lookup[of "[]" events t] that by simp
  have sum: "sum_list (map snd tl) = tot"
    unfolding tl_def tot_def using loop_sum[of events "[]"] by simp
  have d_keys: "map fst dom = map fst tl"
    unfolding dom_def by (rule fst_scale)
  have d_look: "map_of dom t = Some (sum_list (map amount (filter (\<lambda>e. ticker e = t) events)) / tot)"
    if "t \<in> ticker ` set events" for t
    unfolding dom_def map_of_scale using look[OF that] by simp
  have d_sum: "sum_list (map snd dom) = 1" if "0 < tot"
    unfolding dom_def sum_scale sum using that by simp
  have m_tot: "total_amount (calculate_liquidation_metrics events w) = tot"
    unfolding tot_def by (rule metrics_total)
  have m_dom: "dominance_info (calculate_liquidation_metrics events w) = (if 0 < tot then dom else [])"
    unfolding tot_def dom_def tl_def by (rule metrics_dominance)
  show ?thesis
  proof (cases "0 < tot")
    case True
    then show ?thesis
      unfolding Let_def m_tot m_dom
      using dist keys d_look d_sum by (simp only: d_keys tot_def[symmetric] if_True) blast
  next
    case False
    then show ?thesis
      unfolding Let_def m_tot m_dom by (simp add: tot_def)
  qed
qed

theorem dominance_shares_witness:
  "dominance_info (calculate_liquidation_metrics
      [\<lparr>timestamp = 0, ticker = ''BTC'', direction = ''Long'', amount = 30\<rparr>,
       \<lparr>timestamp = 1, ticker = ''ETH'', direction = ''Short'', amount = 10\<rparr>,
       \<lparr>timestamp = 2, ticker = ''BTC'', direction = ''Short'', amount = 60\<rparr>] 300)
     = [(''BTC'', 9 / 10), (''ETH'', 1 / 10)]
   \<and> sum_list (map snd (dominance_info (calculate_liquidation_metrics
      [\<lparr>timestamp = 0, ticker = ''BTC'', direction = ''Long'', amount = 30\<rparr>,
       \<lparr>timestamp = 1, ticker = ''ETH'', direction = ''Short'', amount = 10\<rparr>,
       \<lparr>timestamp = 2, ticker = ''BTC'', direction = ''Short'', amount = 60\<rparr>] 300))) = 1
   \<and> dominance_info (calculate_liquidation_metrics [] 300) = []"
proof -
  let ?es = "[\<lparr>timestamp = 0, ticker = ''BTC'', direction = ''Long'', amount = 30\<rparr>,
       \<lparr>timestamp = 1, ticker = ''ETH'', direction = ''Short'', amount = 10\<rparr>,
       \<lparr>timestamp = 2, ticker = ''BTC'', direction = ''Short'', amount = 60\<rparr>]"
  have dom_val: "dominance_info (calculate_liquidation_metrics ?es 300)
                 = [(''BTC'', 9 / 10), (''ETH'', 1 / 10)]"
    by (simp add: metrics_dominance)
  have pos: "0 < total_amount (calculate_liquidation_metrics ?es 300)"
    by (simp add: metrics_total)
  have zero: "total_amount (calculate_liquidation_metrics [] 300) = 0"
    by (simp add: metrics_total)
  have one: "sum_list (map snd (dominance_info (calculate_liquidation_metrics ?es 300))) = 1"
    using dominance_shares[of ?es 300] pos unfolding Let_def by blast
  have none: "dominance_info (calculate_liquidation_metrics [] 300) = []"
    using dominance_shares[of "[]" 300] zero unfolding Let_def by blast
  from dom_val one none show ?thesis by blast
qed

text \<open>
  Claim C6. When the directional amount (the Long amount plus the Short amount) is
  positive, \<open>long_bias\<close> is the Long amount divided by the directional amount and
  \<open>short_bias\<close> is \<open>1 - long_bias\<close>, so the two sum to \<open>1\<close>; when there is no
  directional amount both are exactly \<open>0\<close>.
\<close>

theorem bias_complementary:
  fixes events :: "event list" and w :: real
  assumes "long_amount = sum_list (map amount (filter (\<lambda>e. direction e = ''Long'') events))"
      and "short_amount = sum_list (map amount (filter (\<lambda>e. direction e = ''Short'') events))"
      and "m = calculate_liquidation_metrics events w"
  shows "(0 < long_amount + short_amount \<longrightarrow>
            long_bias m = long_amount / (long_amount + short_amount) \<and>
            short_bias m = 1 - long_bias m \<and>
            long_bias m + short_bias m = 1) \<and>
         (long_amount + short_amount \<le> 0 \<longrightarrow> long_bias m = 0 \<and> short_bias m = 0)"
proof -
  have "sum_list (map amount (filter (\<lambda>e. direction e \<in> set [''Long'', ''Short'']) events))
          = long_amount + short_amount"
    unfolding assms by (induction events) auto
  then show ?thesis
    unfolding assms(3) by (simp add: calculate_liquidation_metrics_def Let_def assms(1))
qed

theorem bias_complementary_witness:
  "long_bias (calculate_liquidation_metrics
      [\<lparr>timestamp = 0, ticker = ''BTC'', direction = ''Long'', amount = 30\<rparr>,
       \<lparr>timestamp = 1, ticker = ''ETH'', direction = ''Short'', amount = 10\<rparr>,
       \<lparr>timestamp = 2, ticker = ''BTC'', direction = ''Other'', amount = 60\<rparr>] 300) = 3 / 4
   \<and> short_bias (calculate_liquidation_metrics
      [\<lparr>timestamp = 0, ticker = ''BTC'', direction = ''Long'', amount = 30\<rparr>,
       \<lparr>timestamp = 1, ticker = ''ETH'', direction = ''Short'', amount = 10\<rparr>,
       \<lparr>timestamp = 2, ticker = ''BTC'', direction = ''Other'', amount = 60\<rparr>] 300) = 1 / 4
   \<and> long_bias (calculate_liquidation_metrics
      [\<lparr>timestamp = 2, ticker = ''BTC'', direction = ''Other'', amount = 60\<rparr>] 300) = 0
   \<and> short_bias (calculate_liquidation_metrics
      [\<lparr>timestamp = 2, ticker = ''BTC'', direction = ''Other'', amount = 60\<rparr>] 300) = 0"
proof -
  let ?es = "[\<lparr>timestamp = 0, ticker = ''BTC'', direction = ''Long'', amount = 30\<rparr>,
       \<lparr>timestamp = 1, ticker = ''ETH'', direction = ''Short'', amount = 10\<rparr>,
       \<lparr>timestamp = 2, ticker = ''BTC'', direction = ''Other'', amount = 60\<rparr>]"
  let ?os = "[\<lparr>timestamp = 2, ticker = ''BTC'', direction = ''Other'', amount = 60\<rparr>]"
  have a: "long_bias (calculate_liquidation_metrics ?es 300) = 30 / (30 + 10) \<and>
           short_bias (calculate_liquidation_metrics ?es 300)
             = 1 - long_bias (calculate_liquidation_metrics ?es 300)"
    using bias_complementary[of 30 ?es 10 "calculate_liquidation_metrics ?es 300" 300]
    by simp
  have b: "long_bias (calculate_liquidation_metrics ?os 300) = 0 \<and>
           short_bias (calculate_liquidation_metrics ?os 300) = 0"
    using bias_complementary[of 0 ?os 0 "calculate_liquidation_metrics ?os 300" 300]
    by simp
  from a b show ?thesis by simp
qed

section \<open>Properties of the detection state machine\<close>

text \<open>The example store seen from second 350, and the speed of its window.\<close>

lemma burst_query:
  "get_liquidations_in_timeframe stamp_text stamp_parse 350000000 burst_db
     (350000000 - timedelta_seconds (ANALYSIS_WINDOW_SECONDS default_config)) (Some 350000000)
   = burst_events"
  by code_simp

lemma burst_speed:
  "speed_usd_per_sec (calculate_liquidation_metrics burst_events
     (real_of_int (ANALYSIS_WINDOW_SECONDS default_config))) = 70000 / 3"
  by (simp add: calculate_liquidation_metrics_def burst_events_def default_config_def)

text \<open>
  Claim C1. An evaluation step taken in IDLE, with the speed of the current window at
  or above \<^verbatim>\<open>BASE_THRESHOLD_USD_PER_SEC\<close> and either no summary ever sent or at
  least \<^verbatim>\<open>SUMMARY_COOLDOWN_SECONDS\<close> elapsed since \<open>last_summary_sent\<close>, makes
  the monitor ACTIVE, copies the events of the window into \<open>active_period_events\<close>,
  sets \<open>active_since\<close> and \<open>last_above_threshold_time\<close> to \<open>now\<close> and sets
  \<open>prev_known_speed\<close> to the \<open>last_known_speed\<close> the step found. The step sends
  nothing.
\<close>

theorem idle_to_active:
  assumes idle: "state self = IDLE"
    and events: "events = get_liquidations_in_timeframe adapt fromisoformat now conn
                   (now - timedelta_seconds (ANALYSIS_WINDOW_SECONDS cfg)) (Some now)"
    and speed: "current_speed = speed_usd_per_sec (calculate_liquidation_metrics events
                   (real_of_int (ANALYSIS_WINDOW_SECONDS cfg)))"
    and above: "current_speed \<ge> BASE_THRESHOLD_USD_PER_SEC cfg"
    and cooled: "last_summary_sent self = None \<or>
                 (\<exists>sent. last_summary_sent self = Some sent \<and>
                    total_seconds (now - sent) \<ge> real_of_int (SUMMARY_COOLDOWN_SECONDS cfg))"
  shows "\<exists>self'. check_and_transition cfg adapt fromisoformat conn now post self = Inr (self', [])
           \<and> state self' = ACTIVE
           \<and> active_period_events self' = events
           \<and> active_since self' = Some now
           \<and> prev_known_speed self' = last_known_speed self
           \<and> last_above_threshold_time self' = Some now
           \<and> last_known_speed self' = current_speed
           \<and> last_summary_sent self' = last_summary_sent self"
  using idle above cooled unfolding events speed check_and_transition_def
  by (auto simp: Let_def split: option.splits)

theorem idle_to_active_witness:
  "check_and_transition default_config stamp_text stamp_parse burst_db 350000000 ClientError
     init_monitor =
   Inr (\<lparr> state = ACTIVE, active_since = Some 350000000, last_summary_sent = None,
          last_known_speed = 70000 / 3, prev_known_speed = 0,
          last_above_threshold_time = Some 350000000,
          active_period_events = burst_events \<rparr>, [])"
proof -
  have idle: "state init_monitor = IDLE"
    by (simp add: init_monitor_def)
  have above: "BASE_THRESHOLD_USD_PER_SEC default_config \<le> 70000 / 3"
    by (simp add: default_config_def)
  have cooled: "last_summary_sent init_monitor = None \<or>
      (\<exists>sent. last_summary_sent init_monitor = Some sent \<and>
         total_seconds (350000000 - sent)
           \<ge> real_of_int (SUMMARY_COOLDOWN_SECONDS default_config))"
    by (simp add: init_monitor_def)
  from idle_to_active[OF idle burst_query[symmetric] burst_speed[symmetric] above cooled,
        of ClientError]
  obtain self' where
    "check_and_transition default_config stamp_text stamp_parse burst_db 350000000 ClientError
       init_monitor = Inr (self', [])"
    "state self' = ACTIVE" "active_period_events self' = burst_events"
    "active_since self' = Some 350000000" "prev_known_speed self' = last_known_speed init_monitor"
    "last_above_threshold_time self' = Some 350000000" "last_known_speed self' = 70000 / 3"
    "last_summary_sent self' = last_summary_sent init_monitor"
    by blast
  then show ?thesis
    by (cases self') (simp add: init_monitor_def)
qed

text \<open>
  Claim C3, as the code has it. An evaluation step taken in IDLE, with the speed at or
  above the threshold while the cooldown blocks the transition (a summary was sent less
  than \<^verbatim>\<open>SUMMARY_COOLDOWN_SECONDS\<close> ago), returns at once: the state stays IDLE,
  nothing is sent and no field of the monitor changes, \<open>last_known_speed\<close> included.
\<close>

theorem cooldown_blocks:
  assumes idle: "state self = IDLE"
    and events: "events = get_liquidations_in_timeframe adapt fromisoformat now conn
                   (now - timedelta_seconds (ANALYSIS_WINDOW_SECONDS cfg)) (Some now)"
    and speed: "current_speed = speed_usd_per_sec (calculate_liquidation_metrics events
                   (real_of_int (ANALYSIS_WINDOW_SECONDS cfg)))"
    and above: "current_speed \<ge> BASE_THRESHOLD_USD_PER_SEC cfg"
    and cooling: "last_summary_sent self = Some sent"
                 "total_seconds (now - sent) < real_of_int (SUMMARY_COOLDOWN_SECONDS cfg)"
  shows "check_and_transition cfg adapt fromisoformat conn now post self = Inr (self, [])"
  using idle above cooling unfolding events speed check_and_transition_def
  by (auto simp: Let_def split: option.splits)


theorem cooldown_blocks_witness:
  "check_and_transition default_config stamp_text stamp_parse burst_db 350000000 ClientError
     (init_monitor\<lparr> last_summary_sent := Some 340000000 \<rparr>) =
   Inr (init_monitor\<lparr> last_summary_sent := Some 340000000 \<rparr>, [])"
proof -
  have idle: "state (init_monitor\<lparr> last_summary_sent := Some 340000000 \<rparr>) = IDLE"
    by (simp add: init_monitor_def)
  have above: "BASE_THRESHOLD_USD_PER_SEC default_config \<le> 70000 / 3"
    by (simp add: default_config_def)
  have sent: "last_summary_sent (init_monitor\<lparr> last_summary_sent := Some 340000000 \<rparr>)
                = Some 340000000"
    by simp
  have cooling: "total_seconds (350000000 - 340000000)
                   < real_of_int (SUMMARY_COOLDOWN_SECONDS default_config)"
    by (simp add: total_seconds_def default_config_def)
  show ?thesis
    by (rule cooldown_blocks[OF idle burst_query[symmetric] burst_speed[symmetric] above
          sent cooling])
qed

text \<open>
  The claim C3 as stated says that the blocked step still updates \<open>last_known_speed\<close>
  to the current speed. On the example store, ten seconds after a summary, the speed
  is \<open>70000 / 3\<close> and the step leaves \<open>last_known_speed\<close> at \<open>0\<close>.
\<close>

theorem cooldown_skips_speed_update:
  "state (init_monitor\<lparr> last_summary_sent := Some 340000000 \<rparr>) = IDLE
   \<and> speed_usd_per_sec (calculate_liquidation_metrics
        (get_liquidations_in_timeframe stamp_text stamp_parse 350000000 burst_db
           (350000000 - timedelta_seconds (ANALYSIS_WINDOW_SECONDS default_config))
           (Some 350000000))
        (real_of_int (ANALYSIS_WINDOW_SECONDS default_config))) = 70000 / 3
   \<and> BASE_THRESHOLD_USD_PER_SEC default_config \<le> 70000 / 3
   \<and> total_seconds (350000000 - 340000000)
        < real_of_int (SUMMARY_COOLDOWN_SECONDS default_config)
   \<and> check_and_transition default_config stamp_text stamp_parse burst_db 350000000 ClientError
        (init_monitor\<lparr> last_summary_sent := Some 340000000 \<rparr>) =
      Inr (init_monitor\<lparr> last_summary_sent := Some 340000000 \<rparr>, [])
   \<and> last_known_speed (init_monitor\<lparr> last_summary_sent := Some 340000000 \<rparr>) = 0
   \<and> last_known_speed (init_monitor\<lparr> last_summary_sent := Some 340000000 \<rparr>) \<noteq> 70000 / 3"
proof -
  have step: "check_and_transition default_config stamp_text stamp_parse burst_db 350000000
        ClientError (init_monitor\<lparr> last_summary_sent := Some 340000000 \<rparr>) =
      Inr (init_monitor\<lparr> last_summary_sent := Some 340000000 \<rparr>, [])"
    unfolding check_and_transition_def
    by (simp add: burst_query burst_speed init_monitor_def)
       (simp add: default_config_def total_seconds_def init_monitor_def)
  show ?thesis
    unfolding burst_query burst_speed step
    by (simp add: init_monitor_def default_config_def total_seconds_def)
qed







text \<open>
  \<open>last_summary_sent\<close> changes in a step only when a summary was posted and the post
  was delivered.
\<close>

lemma last_summary_sent_changes_on_delivery_only:
  assumes "check_and_transition cfg adapt fromisoformat conn now post self = Inr (self', posted)"
  shows "last_summary_sent self' = last_summary_sent self \<or>
         (\<exists>sent_at. post = Delivered sent_at \<and> last_summary_sent self' = Some sent_at
            \<and> length posted = 1)"
  using assms unfolding check_and_transition_def send_summary_notification_def
  by (auto simp: Let_def split: monitor_state.splits option.splits if_splits post_outcome.splits)

text \<open>
  Claim C10 at a failing post: with a webhook configured and the post raising
  \<^verbatim>\<open>aiohttp.ClientError\<close>, the draining monitor goes back to IDLE, the buffer,
  \<open>active_since\<close> and \<open>prev_known_speed\<close> are cleared and \<open>last_summary_sent\<close>
  keeps its value, but \<open>last_known_speed\<close> is \<open>350000 / 19\<close>, not zero: the
  assignment \<^verbatim>\<open>self.last_known_speed = current_speed\<close> that ends the ACTIVE branch
  overwrites the reset.
\<close>

theorem failed_send_keeps_speed:
  "(case check_and_transition webhook_config stamp_text stamp_parse burst_db 730000000
           ClientError draining_monitor of
      Inl e \<Rightarrow> False
    | Inr (self', posted) \<Rightarrow>
        self' = \<lparr> state = IDLE, active_since = None, last_summary_sent = None,
                  last_known_speed = 350000 / 19, prev_known_speed = 0,
                  last_above_threshold_time = Some 700000000, active_period_events = [] \<rparr>
        \<and> length posted = 1)"
  by code_simp

section \<open>Properties of the event store\<close>

lemma fold_max_ge_init: "(a::nat) \<le> fold max xs a"
  by (induction xs arbitrary: a) (auto intro: order_trans[OF max.cobounded2])

lemma fold_max_ge_elem: "x \<in> set xs \<Longrightarrow> (x::nat) \<le> fold max xs a"
proof (induction xs arbitrary: a)
  case Nil
  then show ?case by simp
next
  case (Cons y ys)
  show ?case
  proof (cases "x = y")
    case True
    have "y \<le> max y a" by simp
    also have "\<dots> \<le> fold max ys (max y a)" by (rule fold_max_ge_init)
    finally show ?thesis using True by simp
  next
    case False
    with Cons show ?thesis by simp
  qed
qed

lemma insert_rows:
  "liquidations (insert_liquidation conn ts t d a) =
     liquidations conn @
       [\<lparr> row_id = Suc (fold max (map row_id (liquidations conn)) (sqlite_sequence conn)),
          row_timestamp = ts, row_ticker = t, row_direction = d, row_amount = a \<rparr>]"
  by (simp add: insert_liquidation_def Let_def)

lemma insert_distinct:
  assumes "distinct (map row_id (liquidations conn))"
  shows "distinct (map row_id (liquidations (insert_liquidation conn ts t d a)))"
proof -
  have "Suc (fold max (map row_id (liquidations conn)) (sqlite_sequence conn))
          \<notin> set (map row_id (liquidations conn))"
    using fold_max_ge_elem[of _ "map row_id (liquidations conn)" "sqlite_sequence conn"]
    by (metis Suc_n_not_le_n)
  with assms show ?thesis
    unfolding insert_rows by simp
qed

text \<open>Keeping the rows whose id is among the most recent ones.\<close>

lemma trim_rows:
  fixes rows :: "row list" and n :: nat
  assumes dist: "distinct (map row_id rows)"
  defines "recent \<equiv> rev (sort_key (\<lambda>r. (row_timestamp r, row_id r)) rows)"
  defines "kept \<equiv> filter (\<lambda>r. row_id r \<in> set (most_recent_ids rows n)) rows"
  shows "set kept = set (take n recent)"
    and "set rows - set kept = set (drop n recent)"
    and "length kept = min n (length rows)"
    and "distinct (map row_id kept)"
proof -
  have inj: "inj_on row_id (set rows)" and drows: "distinct rows"
    using dist by (simp_all add: distinct_map)
  have set_recent: "set recent = set rows" and drecent: "distinct recent"
    and len_recent: "length recent = length rows"
    using drows by (simp_all add: recent_def)
  have sub: "set (take n recent) \<subseteq> set rows"
    using set_take_subset[of n recent] set_recent by simp
  have mem: "row_id r \<in> set (most_recent_ids rows n) \<longleftrightarrow> r \<in> set (take n recent)"
    if "r \<in> set rows" for r
  proof
    assume "row_id r \<in> set (most_recent_ids rows n)"
    then obtain q where q: "q \<in> set (take n recent)" "row_id q = row_id r"
      by (auto simp: most_recent_ids_def recent_def)
    with sub that inj have "q = r" by (auto dest: inj_onD)
    with q show "r \<in> set (take n recent)" by simp
  next
    assume "r \<in> set (take n recent)"
    then show "row_id r \<in> set (most_recent_ids rows n)"
      by (auto simp: most_recent_ids_def recent_def)
  qed
  then have kept_eq: "kept = filter (\<lambda>r. r \<in> set (take n recent)) rows"
    unfolding kept_def by (auto intro: filter_cong)
  show k: "set kept = set (take n recent)"
    unfolding kept_eq using sub by auto
  have "set recent = set (take n recent) \<union> set (drop n recent)"
    by (metis append_take_drop_id set_append)
  moreover have "set (take n recent) \<inter> set (drop n recent) = {}"
    using drecent by (metis append_take_drop_id distinct_append)
  ultimately show "set rows - set kept = set (drop n recent)"
    using k set_recent by auto
  have "distinct kept" unfolding kept_def using drows by simp
  then have "length kept = card (set kept)"
    by (simp add: distinct_card)
  also have "\<dots> = length (take n recent)"
    unfolding k using drecent by (simp add: distinct_card)
  finally show "length kept = min n (length rows)"
    using len_recent by simp
  show "distinct (map row_id kept)"
    unfolding kept_def using dist by (simp add: distinct_map_filter)
qed

lemma recent_order:
  fixes rows :: "row list"
  defines "recent \<equiv> rev (sort_key (\<lambda>r. (row_timestamp r, row_id r)) rows)"
  assumes dist: "distinct (map row_id rows)"
    and k: "k \<in> set (take n recent)" and d: "d \<in> set (drop n recent)"
  shows "(row_timestamp d, row_id d) < (row_timestamp k, row_id k)"
proof -
  let ?key = "\<lambda>r. (row_timestamp r, row_id r)"
  have "sorted (map ?key (sort_key ?key rows))" by simp
  then have "sorted (rev (map ?key recent))"
    by (simp add: recent_def rev_map)
  then have "sorted (rev (map ?key (take n recent @ drop n recent)))"
    by simp
  then have "sorted (rev (map ?key (drop n recent)) @ rev (map ?key (take n recent)))"
    by (simp only: map_append rev_append)
  then have le: "?key d \<le> ?key k"
    using k d by (auto simp: sorted_append)
  have "distinct recent"
    using dist by (simp add: recent_def distinct_map)
  then have "set (take n recent) \<inter> set (drop n recent) = {}"
    by (metis append_take_drop_id distinct_append)
  with k d have "k \<noteq> d" by auto
  moreover have "k \<in> set rows" "d \<in> set rows"
    using k d in_set_takeD[of k n recent] in_set_dropD[of d n recent]
    by (simp_all add: recent_def)
  ultimately have "row_id k \<noteq> row_id d"
    using dist by (auto simp: distinct_map dest: inj_onD)
  with le show ?thesis by (auto simp: less_le)
qed


lemma add_rows:
  "liquidations (add_liquidation adapt conn ts t d a) =
     filter (\<lambda>r. row_id r \<in> set (most_recent_ids
                (liquidations (insert_liquidation conn (adapt ts) t d a))
                LIQUIDATION_HISTORY_LIMIT))
       (liquidations (insert_liquidation conn (adapt ts) t d a))"
  by (simp add: add_liquidation_def trim_liquidations_def)

lemma add_distinct_ids:
  assumes "distinct (map row_id (liquidations conn))"
  shows "distinct (map row_id (liquidations (add_liquidation adapt conn ts t d a)))"
  unfolding add_rows by (rule trim_rows(4)[OF insert_distinct[OF assms]])

lemma add_length:
  assumes "distinct (map row_id (liquidations conn))"
  shows "length (liquidations (add_liquidation adapt conn ts t d a)) =
           min LIQUIDATION_HISTORY_LIMIT (Suc (length (liquidations conn)))"
  unfolding add_rows trim_rows(3)[OF insert_distinct[OF assms]]
  by (simp add: insert_rows)

lemma add_liquidations_bounded:
  assumes "distinct (map row_id (liquidations conn))"
    and "length (liquidations conn) \<le> LIQUIDATION_HISTORY_LIMIT"
  shows "length (liquidations (add_liquidations adapt conn evs)) \<le> LIQUIDATION_HISTORY_LIMIT
         \<and> distinct (map row_id (liquidations (add_liquidations adapt conn evs)))"
  using assms
proof (induction evs arbitrary: conn)
  case Nil
  then show ?case by simp
next
  case (Cons e evs)
  obtain ts t d a where e: "e = (ts, t, d, a)" by (cases e)
  have "distinct (map row_id (liquidations (add_liquidation adapt conn ts t d a)))"
    by (rule add_distinct_ids[OF Cons.prems(1)])
  moreover have "length (liquidations (add_liquidation adapt conn ts t d a))
                   \<le> LIQUIDATION_HISTORY_LIMIT"
    by (simp add: add_length[OF Cons.prems(1)])
  ultimately show ?case
    unfolding e using Cons.IH by simp
qed

text \<open>
  Claim C8. An append inserts the new event as one more row and then deletes every row
  that is not among the \<^verbatim>\<open>LIQUIDATION_HISTORY_LIMIT\<close> (200) most recent by
  (timestamp, id): the rows kept are rows of the table after the insert, in their order,
  as many as the limit allows, and each of them is more recent than each row deleted.
  So after an append, and after any further sequence of appends, the store holds at
  most 200 rows. The ids of the table are distinct, as its primary key makes them.
\<close>

theorem add_liquidation_keeps_most_recent:
  assumes dist: "distinct (map row_id (liquidations conn))"
    and ins: "inserted = liquidations (insert_liquidation conn (adapt ts) t d a)"
    and kept: "kept = liquidations (add_liquidation adapt conn ts t d a)"
  shows "(\<exists>new. inserted = liquidations conn @ [new]
            \<and> row_timestamp new = adapt ts \<and> row_ticker new = t
            \<and> row_direction new = d \<and> row_amount new = a
            \<and> row_id new \<notin> row_id ` set (liquidations conn))
       \<and> subseq kept inserted
       \<and> length kept = min LIQUIDATION_HISTORY_LIMIT (length inserted)
       \<and> length kept \<le> LIQUIDATION_HISTORY_LIMIT
       \<and> (\<forall>k \<in> set kept. \<forall>old \<in> set inserted - set kept.
             (row_timestamp old, row_id old) < (row_timestamp k, row_id k))
       \<and> distinct (map row_id kept)
       \<and> length (liquidations (add_liquidations adapt
                    (add_liquidation adapt conn ts t d a) evs)) \<le> LIQUIDATION_HISTORY_LIMIT"
proof -
  have dins: "distinct (map row_id inserted)"
    unfolding ins by (rule insert_distinct[OF dist])
  have kept_eq: "kept = filter (\<lambda>r. row_id r \<in> set (most_recent_ids inserted
                                   LIQUIDATION_HISTORY_LIMIT)) inserted"
    unfolding kept ins by (rule add_rows)
  have new: "\<exists>new. inserted = liquidations conn @ [new]
            \<and> row_timestamp new = adapt ts \<and> row_ticker new = t
            \<and> row_direction new = d \<and> row_amount new = a
            \<and> row_id new \<notin> row_id ` set (liquidations conn)"
    using dins unfolding ins insert_rows by auto
  have sub: "subseq kept inserted"
    unfolding kept_eq by (rule subseq_filter_left)
  have len: "length kept = min LIQUIDATION_HISTORY_LIMIT (length inserted)"
    unfolding kept_eq by (rule trim_rows(3)[OF dins])
  have ord: "(row_timestamp old, row_id old) < (row_timestamp k, row_id k)"
    if "k \<in> set kept" "old \<in> set inserted - set kept" for k old
  proof -
    have ks: "set kept = set (take LIQUIDATION_HISTORY_LIMIT
                 (rev (sort_key (\<lambda>r. (row_timestamp r, row_id r)) inserted)))"
      unfolding kept_eq by (rule trim_rows(1)[OF dins])
    have os: "set inserted - set kept = set (drop LIQUIDATION_HISTORY_LIMIT
                 (rev (sort_key (\<lambda>r. (row_timestamp r, row_id r)) inserted)))"
      unfolding kept_eq by (rule trim_rows(2)[OF dins])
    from that(1) have "k \<in> set (take LIQUIDATION_HISTORY_LIMIT
                 (rev (sort_key (\<lambda>r. (row_timestamp r, row_id r)) inserted)))"
      by (simp only: ks)
    moreover from that(2) have "old \<in> set (drop LIQUIDATION_HISTORY_LIMIT
                 (rev (sort_key (\<lambda>r. (row_timestamp r, row_id r)) inserted)))"
      by (simp only: os)
    ultimately show ?thesis
      by (rule recent_order[OF dins])
  qed
  have dk: "distinct (map row_id kept)"
    unfolding kept_eq by (rule trim_rows(4)[OF dins])
  have seq: "length (liquidations (add_liquidations adapt
                    (add_liquidation adapt conn ts t d a) evs)) \<le> LIQUIDATION_HISTORY_LIMIT"
    using add_liquidations_bounded[of "add_liquidation adapt conn ts t d a" adapt evs]
      dk len unfolding kept by simp
  from new sub len ord dk seq show ?thesis
    by (simp only: min.cobounded1 simp_thms) blast
qed

theorem add_liquidation_keeps_most_recent_witness:
  "length (liquidations full_db) = 200
   \<and> length (liquidations (add_liquidation stamp_text full_db 500 ''ETH'' ''Short'' 7)) = 200
   \<and> length (liquidations (add_liquidations stamp_text
        (add_liquidation stamp_text full_db 500 ''ETH'' ''Short'' 7)
        [(501, ''BTC'', ''Long'', 2), (502, ''SOL'', ''Short'', 3)])) \<le> 200"
proof -
  have ids: "map row_id (liquidations full_db) = [1 ..< Suc LIQUIDATION_HISTORY_LIMIT]"
    by (simp add: full_db_def comp_def)
  then have dist: "distinct (map row_id (liquidations full_db))"
    by simp
  have len: "length (liquidations full_db) = 200"
    by (simp add: full_db_def LIQUIDATION_HISTORY_LIMIT_def)
  have ins: "length (liquidations (insert_liquidation full_db (stamp_text 500) ''ETH'' ''Short'' 7))
               = 201"
    by (simp add: insert_rows len)
  from add_liquidation_keeps_most_recent[OF dist refl refl,
         of stamp_text 500 "''ETH''" "''Short''" 7
            "[(501, ''BTC'', ''Long'', 2), (502, ''SOL'', ''Short'', 3)]"]
  have "length (liquidations (add_liquidation stamp_text full_db 500 ''ETH'' ''Short'' 7))
          = min LIQUIDATION_HISTORY_LIMIT
              (length (liquidations (insert_liquidation full_db (stamp_text 500) ''ETH'' ''Short'' 7)))"
    and "length (liquidations (add_liquidations stamp_text
        (add_liquidation stamp_text full_db 500 ''ETH'' ''Short'' 7)
        [(501, ''BTC'', ''Long'', 2), (502, ''SOL'', ''Short'', 3)])) \<le> LIQUIDATION_HISTORY_LIMIT"
    by blast+
  then show ?thesis
    using len by (simp add: ins LIQUIDATION_HISTORY_LIMIT_def)
qed


lemma results_loop_append:
  "results_loop fromisoformat rows results =
     results @ concat (map (\<lambda>r.
        case fromisoformat (str_replace CHR '' '' ''T'' (row_timestamp r)) of
          None \<Rightarrow> []
        | Some ts \<Rightarrow> [\<lparr> timestamp = ts, ticker = row_ticker r,
                        direction = row_direction r, amount = row_amount r \<rparr>]) rows)"
  by (induction rows arbitrary: results) (auto split: option.splits)

lemma select_timeframe_mset:
  "mset (select_timeframe rows lo hi) =
     mset (filter (\<lambda>r. lo \<le> row_timestamp r \<and> row_timestamp r \<le> hi) rows)"
  by (simp add: select_timeframe_def)

lemma select_timeframe_sorted:
  "sorted (map row_timestamp (select_timeframe rows lo hi))"
  by (simp add: select_timeframe_def)

lemma parsed_sorted:
  fixes parse :: "row \<Rightarrow> datetime option"
  assumes "sorted (map row_timestamp rows)"
    and "\<And>r1 r2 t1 t2. r1 \<in> set rows \<Longrightarrow> r2 \<in> set rows \<Longrightarrow>
            row_timestamp r1 \<le> row_timestamp r2 \<Longrightarrow> parse r1 = Some t1 \<Longrightarrow>
            parse r2 = Some t2 \<Longrightarrow> t1 \<le> t2"
  shows "sorted (map timestamp (concat (map (\<lambda>r.
        case parse r of
          None \<Rightarrow> []
        | Some ts \<Rightarrow> [\<lparr> timestamp = ts, ticker = row_ticker r,
                        direction = row_direction r, amount = row_amount r \<rparr>]) rows)))"
  using assms
proof (induction rows)
  case Nil
  then show ?case by simp
next
  case (Cons r rows)
  have tail: "sorted (map timestamp (concat (map (\<lambda>r.
        case parse r of
          None \<Rightarrow> []
        | Some ts \<Rightarrow> [\<lparr> timestamp = ts, ticker = row_ticker r,
                        direction = row_direction r, amount = row_amount r \<rparr>]) rows)))"
    using Cons.prems by (intro Cons.IH) auto
  show ?case
  proof (cases "parse r")
    case None
    with tail show ?thesis by simp
  next
    case (Some t)
    have "t \<le> timestamp e" if "e \<in> set (concat (map (\<lambda>r.
        case parse r of
          None \<Rightarrow> []
        | Some ts \<Rightarrow> [\<lparr> timestamp = ts, ticker = row_ticker r,
                        direction = row_direction r, amount = row_amount r \<rparr>]) rows))" for e
    proof -
      from that obtain r' t' where r': "r' \<in> set rows" "parse r' = Some t'" "timestamp e = t'"
        by (fastforce split: option.splits)
      have "row_timestamp r \<le> row_timestamp r'"
        using Cons.prems(1) r'(1) by auto
      then show ?thesis
        using Cons.prems(2)[of r r' t t'] r' Some by simp
    qed
    with tail Some show ?thesis by auto
  qed
qed


text \<open>
  Claim C9. The range query returns the events of exactly the stored rows whose
  timestamp lies between \<open>start\<close> and \<open>end\<close> (compared as SQLite compares the
  stored texts with the two bounds) and parses, in ascending order of the stored
  timestamp; \<open>end\<close> is the clock reading when it is omitted. A row whose timestamp
  does not parse is skipped, so a window that holds only such rows gives the empty
  sequence; the query has no failing path. Where the order of the texts agrees with the
  order of the instants they parse to, the events are ascending by instant.
\<close>

theorem query_timeframe:
  assumes lo: "lo = adapt start_time"
    and hi: "hi = adapt (case end_time of None \<Rightarrow> clock | Some e \<Rightarrow> e)"
    and result: "result = get_liquidations_in_timeframe adapt fromisoformat clock conn
                            start_time end_time"
  shows "(\<exists>rows.
            mset rows = mset (filter (\<lambda>r. lo \<le> row_timestamp r \<and> row_timestamp r \<le> hi)
                                (liquidations conn))
            \<and> sorted (map row_timestamp rows)
            \<and> result = concat (map (\<lambda>r.
                  case fromisoformat (str_replace CHR '' '' ''T'' (row_timestamp r)) of
                    None \<Rightarrow> []
                  | Some ts \<Rightarrow> [\<lparr> timestamp = ts, ticker = row_ticker r,
                                  direction = row_direction r, amount = row_amount r \<rparr>]) rows)
            \<and> ((\<forall>r1 \<in> set rows. \<forall>r2 \<in> set rows. \<forall>t1 t2.
                    row_timestamp r1 \<le> row_timestamp r2
                    \<and> fromisoformat (str_replace CHR '' '' ''T'' (row_timestamp r1)) = Some t1
                    \<and> fromisoformat (str_replace CHR '' '' ''T'' (row_timestamp r2)) = Some t2
                    \<longrightarrow> t1 \<le> t2)
                 \<longrightarrow> sorted (map timestamp result)))
       \<and> ((\<forall>r \<in> set (liquidations conn).
              lo \<le> row_timestamp r \<and> row_timestamp r \<le> hi \<longrightarrow>
              fromisoformat (str_replace CHR '' '' ''T'' (row_timestamp r)) = None)
            \<longrightarrow> result = [])"
proof -
  define rows where "rows = select_timeframe (liquidations conn) lo hi"
  let ?parse = "\<lambda>r. fromisoformat (str_replace CHR '' '' ''T'' (row_timestamp r))"
  let ?events = "\<lambda>rs. concat (map (\<lambda>r.
                  case ?parse r of
                    None \<Rightarrow> []
                  | Some ts \<Rightarrow> [\<lparr> timestamp = ts, ticker = row_ticker r,
                                  direction = row_direction r, amount = row_amount r \<rparr>]) rs)"
  have res: "result = ?events rows"
    unfolding result get_liquidations_in_timeframe_def rows_def lo hi
    by (simp add: Let_def results_loop_append)
  have ms: "mset rows = mset (filter (\<lambda>r. lo \<le> row_timestamp r \<and> row_timestamp r \<le> hi)
                                (liquidations conn))"
    unfolding rows_def by (rule select_timeframe_mset)
  have srt: "sorted (map row_timestamp rows)"
    unfolding rows_def by (rule select_timeframe_sorted)
  have asc: "sorted (map timestamp result)"
    if "\<forall>r1 \<in> set rows. \<forall>r2 \<in> set rows. \<forall>t1 t2.
          row_timestamp r1 \<le> row_timestamp r2 \<and> ?parse r1 = Some t1 \<and> ?parse r2 = Some t2
          \<longrightarrow> t1 \<le> t2"
    unfolding res using srt that by (intro parsed_sorted) blast+
  have empty: "result = []"
    if "\<forall>r \<in> set (liquidations conn).
          lo \<le> row_timestamp r \<and> row_timestamp r \<le> hi \<longrightarrow> ?parse r = None"
  proof -
    have "set rows = {r \<in> set (liquidations conn). lo \<le> row_timestamp r \<and> row_timestamp r \<le> hi}"
      using ms by (metis set_filter set_mset_mset)
    with that have "\<forall>r \<in> set rows. ?parse r = None" by simp
    then show ?thesis unfolding res by simp
  qed
  from res ms srt asc empty show ?thesis by blast
qed

theorem query_timeframe_witness:
  "get_liquidations_in_timeframe stamp_text stamp_parse 350000000 tampered_db
     149000000 (Some 151000000) = []
   \<and> get_liquidations_in_timeframe stamp_text stamp_parse 350000000 tampered_db
       50000000 None = burst_events
   \<and> (\<exists>r \<in> set (liquidations tampered_db).
        stamp_text 149000000 \<le> row_timestamp r \<and> row_timestamp r \<le> stamp_text 151000000)"
proof -
  have corrupt: "\<forall>r \<in> set (liquidations tampered_db).
      stamp_text 149000000 \<le> row_timestamp r \<and> row_timestamp r \<le> stamp_text 151000000 \<longrightarrow>
      stamp_parse (str_replace CHR '' '' ''T'' (row_timestamp r)) = None"
  proof -
    have "list_all (\<lambda>r.
        stamp_text 149000000 \<le> row_timestamp r \<and> row_timestamp r \<le> stamp_text 151000000 \<longrightarrow>
        stamp_parse (str_replace CHR '' '' ''T'' (row_timestamp r)) = None)
        (liquidations tampered_db)"
      by code_simp
    then show ?thesis by (simp add: list_all_iff)
  qed
  have some: "\<exists>r \<in> set (liquidations tampered_db).
      stamp_text 149000000 \<le> row_timestamp r \<and> row_timestamp r \<le> stamp_text 151000000"
  proof -
    have "list_ex (\<lambda>r.
        stamp_text 149000000 \<le> row_timestamp r \<and> row_timestamp r \<le> stamp_text 151000000)
        (liquidations tampered_db)"
      by code_simp
    then show ?thesis by (simp add: list_ex_iff)
  qed
  have "get_liquidations_in_timeframe stamp_text stamp_parse 350000000 tampered_db
     149000000 (Some 151000000) = []"
    using query_timeframe[where adapt = stamp_text and start_time = 149000000
        and end_time = "Some 151000000" and clock = 350000000
        and fromisoformat = stamp_parse and conn = tampered_db, OF refl refl refl]
      corrupt by simp
  moreover have "get_liquidations_in_timeframe stamp_text stamp_parse 350000000 tampered_db
       50000000 None = burst_events"
    by code_simp
  ultimately show ?thesis using some by simp
qed


section \<open>Properties of the parser\<close>




































end
